theory Spec2Isabelle
  imports Complex_Main
begin

section \<open>Ingestion service (server/main.py)\<close>

subsection \<open>Python values and the object store\<close>

text \<open>
  The handler mutates the dict objects it received and puts those same objects on the
  queue, so dict objects live in a store and are named by their address. Lists and
  scalars are never mutated by the program and are kept by value. A Python \<open>float\<close>
  is abstracted to a real number.
\<close>

type_synonym addr = nat

datatype pyval =
    PNone
  | PBool bool
  | PInt int
  | PFloat real
  | PStr string
  | PList "pyval list"
  | PDict addr

text \<open>A dict object: its items in insertion order.\<close>

type_synonym pydict = "(string \<times> pyval) list"

text \<open>\<open>type(v).__name__\<close>, as it appears in an \<open>AttributeError\<close>.\<close>

fun type_name :: "pyval \<Rightarrow> string" where
  "type_name PNone = ''NoneType''"
| "type_name (PBool _) = ''bool''"
| "type_name (PInt _) = ''int''"
| "type_name (PFloat _) = ''float''"
| "type_name (PStr _) = ''str''"
| "type_name (PList _) = ''list''"
| "type_name (PDict _) = ''dict''"

text \<open>
  \<open>d.setdefault(k, v)\<close> on the items of a dict: the key is added at the end with
  the default when it is absent, and the dict is left as it is when the key is present.
\<close>

definition setdefault :: "pydict \<Rightarrow> string \<Rightarrow> pyval \<Rightarrow> pydict" where
  "setdefault d k v = (case map_of d k of None \<Rightarrow> d @ [(k, v)] | Some _ \<Rightarrow> d)"

subsection \<open>The bounded queue (\<open>asyncio.Queue\<close>)\<close>

text \<open>
  \<open>EVENT_QUEUE = asyncio.Queue(maxsize=10000)\<close>. The standard library's queue:
  \<open>full()\<close> is false for \<open>maxsize <= 0\<close> and \<open>qsize() >= maxsize\<close> otherwise;
  \<open>put_nowait\<close> raises \<open>QueueFull\<close> (here: \<open>None\<close>) when full and otherwise appends
  the item and counts one more unfinished task; \<open>get\<close> waits while the queue is empty
  (here: \<open>None\<close>, nothing changes) and otherwise removes the oldest item;
  \<open>task_done\<close> raises \<open>ValueError\<close> (here: \<open>None\<close>) when no task is unfinished.
\<close>

record queue =
  maxsize :: int
  items :: "pyval list"
  unfinished_tasks :: nat

definition qsize :: "queue \<Rightarrow> nat" where
  "qsize q = length (items q)"

definition full :: "queue \<Rightarrow> bool" where
  "full q = (if maxsize q \<le> 0 then False else int (qsize q) \<ge> maxsize q)"

definition put_nowait :: "queue \<Rightarrow> pyval \<Rightarrow> queue option" where
  "put_nowait q item =
     (if full q then None
      else Some (q\<lparr>items := items q @ [item], unfinished_tasks := Suc (unfinished_tasks q)\<rparr>))"

definition get :: "queue \<Rightarrow> (pyval \<times> queue) option" where
  "get q = (case items q of [] \<Rightarrow> None | x # xs \<Rightarrow> Some (x, q\<lparr>items := xs\<rparr>))"

definition task_done :: "queue \<Rightarrow> queue option" where
  "task_done q =
     (if unfinished_tasks q \<le> 0 then None
      else Some (q\<lparr>unfinished_tasks := unfinished_tasks q - 1\<rparr>))"

text \<open>A sequence of queue operations; an operation that raises or waits changes nothing.\<close>

datatype qop = Put pyval | Get | TaskDone

fun apply_qop :: "queue \<Rightarrow> qop \<Rightarrow> queue" where
  "apply_qop q (Put x) = (case put_nowait q x of None \<Rightarrow> q | Some q' \<Rightarrow> q')"
| "apply_qop q Get = (case get q of None \<Rightarrow> q | Some (_, q') \<Rightarrow> q')"
| "apply_qop q TaskDone = (case task_done q of None \<Rightarrow> q | Some q' \<Rightarrow> q')"

definition run_qops :: "queue \<Rightarrow> qop list \<Rightarrow> queue" where
  "run_qops q ops = foldl apply_qop q ops"

subsection \<open>Service state\<close>

text \<open>
  The store of dict objects, the module-level queue, and the number of \<open>now_z()\<close>
  calls made so far. The clock is a parameter \<open>clk\<close>: \<open>clk k\<close> is the timestamp
  string the \<open>k\<close>-th call of \<open>now_z()\<close> returns.
\<close>

record state =
  heap :: "addr \<Rightarrow> pydict"
  EVENT_QUEUE :: queue
  now_calls :: nat

definition initial_state :: "state" where
  "initial_state =
     \<lparr>heap = (\<lambda>_. []),
      EVENT_QUEUE = \<lparr>maxsize = 10000, items = [], unfinished_tasks = 0\<rparr>,
      now_calls = 0\<rparr>"

datatype exn =
    HTTPException nat string
  | AttributeError string string

record IngestResponse =
  accepted :: nat
  queued_size :: nat
  timestamp :: string

text \<open>A clock for examples: its readings are \<open>t\<close>, \<open>tt\<close>, \<open>ttt\<close>, and so on.\<close>

definition example_clock :: "nat \<Rightarrow> string" where
  "example_clock k = replicate (Suc k) CHR ''t''"

text \<open>
  Lines 51-52 on one dict object: \<open>event.setdefault("_recieved_at", now_z())\<close>, which
  reads the clock whether or not the key is present, then
  \<open>event.setdefault("_source", "events-generator")\<close>.
\<close>

definition add_metadata :: "(nat \<Rightarrow> string) \<Rightarrow> addr \<Rightarrow> state \<Rightarrow> state" where
  "add_metadata clk a st =
     (let st1 = st\<lparr>heap := (heap st)(a := setdefault (heap st a) ''_recieved_at''
                                            (PStr (clk (now_calls st)))),
                    now_calls := Suc (now_calls st)\<rparr>
      in st1\<lparr>heap := (heap st1)(a := setdefault (heap st1 a) ''_source''
                                          (PStr ''events-generator''))\<rparr>)"

text \<open>
  The loop of lines 48-58. The attribute lookup \<open>event.setdefault\<close> on a value that is
  not a dict raises \<open>AttributeError\<close> before \<open>now_z()\<close> is evaluated; the handler does
  not catch it. \<open>QueueFull\<close> ends the loop.
\<close>

fun ingest_loop ::
  "(nat \<Rightarrow> string) \<Rightarrow> pyval list \<Rightarrow> nat \<Rightarrow> state \<Rightarrow> (exn + nat) \<times> state" where
  "ingest_loop clk [] acc st = (Inr acc, st)"
| "ingest_loop clk (event # rest) acc st =
     (case event of
        PDict a \<Rightarrow>
          (let st2 = add_metadata clk a st in
           case put_nowait (EVENT_QUEUE st2) event of
             Some q \<Rightarrow> ingest_loop clk rest (acc + 1) (st2\<lparr>EVENT_QUEUE := q\<rparr>)
           | None \<Rightarrow> (Inr acc, st2))
      | _ \<Rightarrow> (Inl (AttributeError (type_name event) ''setdefault''), st))"

text \<open>
  \<open>ingest_events\<close>. The request is what \<open>await request.json()\<close> did: \<open>Inl e\<close> when it
  raised (with \<open>e\<close> the exception's text), \<open>Inr body\<close> when it returned the parsed
  body. The result is the raised exception or the response, with the state left behind.
\<close>

definition ingest_events ::
  "(nat \<Rightarrow> string) \<Rightarrow> string + pyval \<Rightarrow> state \<Rightarrow> (exn + IngestResponse) \<times> state" where
  "ingest_events clk request st =
     (case request of
        Inl e \<Rightarrow> (Inl (HTTPException 400 (''Invalid JSON: '' @ e)), st)
      | Inr body \<Rightarrow>
          (case (case body of
                   PDict _ \<Rightarrow> Inr [body]
                 | PList xs \<Rightarrow> Inr xs
                 | _ \<Rightarrow> Inl (HTTPException 400
                              ''Body must be a JSON object or array pf objects'')) of
             Inl err \<Rightarrow> (Inl err, st)
           | Inr events \<Rightarrow>
               (case ingest_loop clk events 0 st of
                  (Inl err, st') \<Rightarrow> (Inl err, st')
                | (Inr acc, st') \<Rightarrow>
                    (Inr \<lparr>accepted = acc,
                          queued_size = qsize (EVENT_QUEUE st'),
                          timestamp = clk (now_calls st')\<rparr>,
                     st'\<lparr>now_calls := Suc (now_calls st')\<rparr>))))"

text \<open>
  The background consumer's loop body: \<open>await EVENT_QUEUE.get()\<close>, then
  \<open>EVENT_QUEUE.task_done()\<close>. On an empty queue the consumer waits.
\<close>

definition consumer_step :: "state \<Rightarrow> state" where
  "consumer_step st =
     (case get (EVENT_QUEUE st) of
        None \<Rightarrow> st
      | Some (_, q) \<Rightarrow>
          (case task_done q of None \<Rightarrow> st\<lparr>EVENT_QUEUE := q\<rparr>
                             | Some q' \<Rightarrow> st\<lparr>EVENT_QUEUE := q'\<rparr>))"

text \<open>A value is an event when it is a dict object.\<close>

fun is_dict :: "pyval \<Rightarrow> bool" where
  "is_dict (PDict _) = True"
| "is_dict _ = False"

text \<open>
  Two notions used to state what the loop does: the metadata defaulting of lines 51-52
  run over a list of dict objects in order, and the number of \<open>n\<close> successive
  \<open>put_nowait\<close> calls that succeed on a queue before the first one raises.
\<close>

definition add_metadata_all :: "(nat \<Rightarrow> string) \<Rightarrow> addr list \<Rightarrow> state \<Rightarrow> state" where
  "add_metadata_all clk as st = foldl (\<lambda>s a. add_metadata clk a s) st as"

definition room :: "queue \<Rightarrow> nat \<Rightarrow> nat" where
  "room q n = (if maxsize q \<le> 0 then n else min n (nat (maxsize q) - qsize q))"

section \<open>Load generator (generator/main.py)\<close>

subsection \<open>Payloads and the outside world\<close>

text \<open>
  Payloads are JSON values kept by value: the generator never mutates them. A Python
  \<open>float\<close> is abstracted to a real number.
\<close>

datatype json =
    JNull
  | JBool bool
  | JInt int
  | JFloat real
  | JStr string
  | JArr "json list"
  | JObj "(string \<times> json) list"

datatype gen_exn =
    FileNotFoundError string
  | ValueError string
  | JSONDecodeError
  | UnicodeDecodeError
  | OSError
  | TemplateError

text \<open>
  What the program calls but does not define. An index \<open>k\<close> says which call is
  answered, so two calls may differ (random data, time, a changing file system). An
  answer \<open>Inl x\<close> is the exception the call raises.
  \<^item> \<open>json_loads s\<close>: \<open>json.loads(s)\<close>;
  \<^item> \<open>fake_uuid4\<close>, \<open>fake_uri_path\<close>, \<open>time_ms\<close> (\<open>int(time.time() * 1000)\<close>),
  \<open>path_exists\<close> (\<open>Path.exists()\<close>), \<open>read_text\<close>
  (\<open>Path.read_text(encoding="utf-8")\<close>) and \<open>render\<close> (the Jinja2 template built from
  a text and rendered) are answered for the \<open>k\<close>-th call of \<open>load_payload\<close>;
  \<^item> a path is kept as the string \<open>str\<close> gives for it: \<open>path_str s\<close> is
  \<open>str(Path(s))\<close>, \<open>beside_script p\<close> is \<open>Path(__file__).parent / p\<close>, \<open>path_name\<close>
  and \<open>path_suffix\<close> are \<open>Path.name\<close> and \<open>Path.suffix\<close>;
  \<^item> \<open>monotonic k\<close>: the \<open>k\<close>-th reading of \<open>time.monotonic()\<close>;
  \<^item> \<open>post k data\<close>: the \<open>k\<close>-th \<open>client.post(url, json=data, timeout=10.0)\<close>
  followed by \<open>resp.json()\<close>: \<open>None\<close> when both return, \<open>Some e\<close> when one of
  them raises an \<open>Exception\<close> whose text is \<open>e\<close>;
  \<^item> \<open>randint k lo hi\<close>: the \<open>k\<close>-th \<open>random.randint(lo, hi)\<close>.
\<close>

record env =
  json_loads :: "string \<Rightarrow> gen_exn + json"
  fake_uuid4 :: "nat \<Rightarrow> string"
  fake_uri_path :: "nat \<Rightarrow> string"
  time_ms :: "nat \<Rightarrow> int"
  path_exists :: "nat \<Rightarrow> string \<Rightarrow> gen_exn + bool"
  read_text :: "nat \<Rightarrow> string \<Rightarrow> gen_exn + string"
  render :: "nat \<Rightarrow> string \<Rightarrow> gen_exn + string"
  path_str :: "string \<Rightarrow> string"
  beside_script :: "string \<Rightarrow> string"
  path_name :: "string \<Rightarrow> string"
  path_suffix :: "string \<Rightarrow> string"
  monotonic :: "nat \<Rightarrow> real"
  post :: "nat \<Rightarrow> json \<Rightarrow> string option"
  randint :: "nat \<Rightarrow> int \<Rightarrow> int \<Rightarrow> int"

text \<open>\<open>", ".join(...)\<close>.\<close>

fun join_comma :: "string list \<Rightarrow> string" where
  "join_comma [] = []"
| "join_comma [x] = x"
| "join_comma (x # y # ys) = x @ '', '' @ join_comma (y # ys)"

text \<open>
  \<open>load_payload(source)\<close>, as its \<open>k\<close>-th call: the default dict for a source that is
  \<open>None\<close> or empty (lines 23-29), the inline JSON when the source parses (lines 31-34,
  any exception of the parser is passed over), and otherwise the file the source names
  (lines 36-68).
\<close>

definition default_payload :: "env \<Rightarrow> nat \<Rightarrow> json" where
  "default_payload e k =
     JObj [(''event_type'', JStr ''page_view''),
           (''user_id'', JStr (fake_uuid4 e k)),
           (''path'', JStr (fake_uri_path e k)),
           (''ts'', JInt (time_ms e k))]"

text \<open>
  Lines 43-46: the first candidate that exists, \<open>None\<close> when the loop runs to its
  \<open>else\<close>; an exception of \<open>exists()\<close> leaves the loop.
\<close>

fun first_existing ::
  "(string \<Rightarrow> gen_exn + bool) \<Rightarrow> string list \<Rightarrow> gen_exn + string option" where
  "first_existing ex [] = Inr None"
| "first_existing ex (cand # cands) =
     (case ex cand of
        Inl x \<Rightarrow> Inl x
      | Inr found \<Rightarrow> if found then Inr (Some cand) else first_existing ex cands)"

definition load_file :: "env \<Rightarrow> string \<Rightarrow> nat \<Rightarrow> gen_exn + json" where
  "load_file e source k =
     (let p = path_str e source;
          candidates = [p, beside_script e p, beside_script e (path_name e p)]
      in case first_existing (path_exists e k) candidates of
           Inl x \<Rightarrow> Inl x
         | Inr None \<Rightarrow>
             Inl (FileNotFoundError
                    (''Payload source not found: '' @ source @ '' (tried: '' @
                     join_comma candidates @ '')''))
         | Inr (Some p') \<Rightarrow>
             if path_suffix e p' = ''.json'' then
               (case read_text e k p' of
                  Inl x \<Rightarrow> Inl x
                | Inr txt \<Rightarrow> json_loads e txt)
             else if path_suffix e p' = ''.j2'' then
               (case read_text e k p' of
                  Inl x \<Rightarrow> Inl x
                | Inr txt \<Rightarrow>
                    (case render e k txt of
                       Inl x \<Rightarrow> Inl x
                     | Inr rendered \<Rightarrow> json_loads e rendered))
             else Inl (ValueError ''Unsuppored payload file type. Use .json or .j2''))"

definition load_payload :: "env \<Rightarrow> string option \<Rightarrow> nat \<Rightarrow> gen_exn + json" where
  "load_payload e source k =
     (case source of
        None \<Rightarrow> Inr (default_payload e k)
      | Some src \<Rightarrow>
          if src = [] then Inr (default_payload e k)
          else (case json_loads e src of
                  Inr v \<Rightarrow> Inr v
                | Inl _ \<Rightarrow> load_file e src k))"

subsection \<open>The worker\<close>

text \<open>
  What a worker has done to the world so far: the number of \<open>load_payload\<close> calls, the
  request bodies handed to \<open>client.post\<close> (oldest first), the lines printed, the
  sleeps asked for, and the numbers of clock readings and random draws.
\<close>

record world =
  lp_calls :: nat
  requests :: "json list"
  stdout :: "string list"
  sleeps :: "real list"
  clock_reads :: nat
  rand_calls :: nat

record worker_args =
  name :: string
  url :: string
  rps :: real
  duration :: real
  payload_src :: "string option"
  batch :: int
  jitter_ms :: int

text \<open>One call of \<open>load_payload(payload_src)\<close> made by the worker.\<close>

definition call_load_payload ::
  "env \<Rightarrow> string option \<Rightarrow> world \<Rightarrow> (gen_exn + json) \<times> world" where
  "call_load_payload e source w =
     (load_payload e source (lp_calls w), w\<lparr>lp_calls := Suc (lp_calls w)\<rparr>)"

text \<open>\<open>[load_payload(payload_src) for _ in range(n)]\<close>.\<close>

fun load_list ::
  "env \<Rightarrow> string option \<Rightarrow> nat \<Rightarrow> world \<Rightarrow> (gen_exn + json list) \<times> world" where
  "load_list e source 0 w = (Inr [], w)"
| "load_list e source (Suc n) w =
     (case call_load_payload e source w of
        (Inl x, w1) \<Rightarrow> (Inl x, w1)
      | (Inr v, w1) \<Rightarrow>
          (case load_list e source n w1 of
             (Inl x, w2) \<Rightarrow> (Inl x, w2)
           | (Inr vs, w2) \<Rightarrow> (Inr (v # vs), w2)))"

text \<open>Lines 78-81: the request body of one iteration.\<close>

definition build_data :: "env \<Rightarrow> worker_args \<Rightarrow> world \<Rightarrow> (gen_exn + json) \<times> world" where
  "build_data e a w =
     (case call_load_payload e (payload_src a) w of
        (Inl x, w1) \<Rightarrow> (Inl x, w1)
      | (Inr body, w1) \<Rightarrow>
          if batch a > 1 then
            (case load_list e (payload_src a) (nat (batch a)) w1 of
               (Inl x, w2) \<Rightarrow> (Inl x, w2)
             | (Inr vs, w2) \<Rightarrow> (Inr (JArr vs), w2))
          else (Inr body, w1))"

text \<open>Lines 83-87: the send, with every \<open>Exception\<close> caught and printed.\<close>

definition send :: "env \<Rightarrow> worker_args \<Rightarrow> json \<Rightarrow> world \<Rightarrow> world" where
  "send e a data w =
     (case post e (length (requests w)) data of
        None \<Rightarrow> w\<lparr>requests := requests w @ [data]\<rparr>
      | Some x \<Rightarrow>
          w\<lparr>requests := requests w @ [data],
            stdout := stdout w @ [''['' @ name a @ ''] error: '' @ x]\<rparr>)"

text \<open>Lines 91-99: the paced sleep.\<close>

definition pace :: "env \<Rightarrow> worker_args \<Rightarrow> real \<Rightarrow> world \<Rightarrow> world" where
  "pace e a interval w =
     (if interval > 0 then
        (if jitter_ms a > 0 then
           (let j = real_of_int (randint e (rand_calls w) 0 (jitter_ms a)) / 1000 in
            w\<lparr>rand_calls := Suc (rand_calls w),
              sleeps := sleeps w @ [max 0 (interval + j)]\<rparr>)
         else w\<lparr>sleeps := sleeps w @ [max 0 (interval + 0)]\<rparr>)
      else w\<lparr>sleeps := sleeps w @ [0]\<rparr>)"

text \<open>The loop body, lines 78-99: the new sent-count, or the exception that leaves it.\<close>

definition iteration ::
  "env \<Rightarrow> worker_args \<Rightarrow> real \<Rightarrow> int \<Rightarrow> world \<Rightarrow> (gen_exn + int) \<times> world" where
  "iteration e a interval sent w =
     (case build_data e a w of
        (Inl x, w1) \<Rightarrow> (Inl x, w1)
      | (Inr data, w1) \<Rightarrow>
          (let w2 = send e a data w1;
               sent' = sent + batch a
           in (Inr sent', pace e a interval w2)))"

text \<open>\<open>end_t\<close>: a reading of the clock plus the duration, or \<open>float("inf")\<close>.\<close>

datatype deadline = Finite real | Infinity

fun before :: "real \<Rightarrow> deadline \<Rightarrow> bool" where
  "before t (Finite d) = (t < d)"
| "before t Infinity = True"

text \<open>
  How a worker stands after at most \<open>fuel\<close> tests of its loop condition: it returned its
  count, an exception left it, or it is still in its loop with the count so far.
\<close>

datatype outcome = Returned int | Raised gen_exn | Running int

fun worker_loop ::
  "env \<Rightarrow> worker_args \<Rightarrow> real \<Rightarrow> deadline \<Rightarrow> nat \<Rightarrow> int \<Rightarrow> world \<Rightarrow> outcome \<times> world" where
  "worker_loop e a interval end_t 0 sent w = (Running sent, w)"
| "worker_loop e a interval end_t (Suc fuel) sent w =
     (let t = monotonic e (clock_reads w);
          w0 = w\<lparr>clock_reads := Suc (clock_reads w)\<rparr>
      in if before t end_t then
           (case iteration e a interval sent w0 of
              (Inl x, w1) \<Rightarrow> (Raised x, w1)
            | (Inr sent', w1) \<Rightarrow> worker_loop e a interval end_t fuel sent' w1)
         else (Returned sent, w0))"




subsection \<open>The run\<close>

text \<open>\<open>str(i)\<close> for a natural number, as in \<open>f"w{i}"\<close>.\<close>

fun str_nat :: "nat \<Rightarrow> string" where
  "str_nat n =
     (if n < 10 then [char_of (48 + n)]
      else str_nat (n div 10) @ [char_of (48 + n mod 10)])"

declare str_nat.simps [simp del]

text \<open>Line 107.\<close>

definition per_worker_rps :: "real \<Rightarrow> int \<Rightarrow> real" where
  "per_worker_rps r concurrency = max (r / real_of_int (max concurrency 1)) 0"

text \<open>Lines 108-111: the arguments of the worker tasks \<open>run\<close> creates.\<close>

definition run_tasks ::
  "string \<Rightarrow> real \<Rightarrow> real \<Rightarrow> int \<Rightarrow> string option \<Rightarrow> int \<Rightarrow> int \<Rightarrow> worker_args list" where
  "run_tasks u r d concurrency source b jit =
     map (\<lambda>i. \<lparr>name = ''w'' @ str_nat i, url = u, rps = per_worker_rps r concurrency,
               duration = d, payload_src = source, batch = b, jitter_ms = jit\<rparr>)
       [0..<nat concurrency]"

subsection \<open>An outside world for examples\<close>

text \<open>
  A world in which no source parses as inline JSON and no file exists, every request
  succeeds, the clock advances one second per reading, and the \<open>k\<close>-th generated
  payload carries \<open>k\<close> as its \<open>ts\<close>.
\<close>

definition example_env :: env where
  "example_env =
     \<lparr>json_loads = (\<lambda>_. Inl JSONDecodeError),
      fake_uuid4 = (\<lambda>_. ''u''),
      fake_uri_path = (\<lambda>_. ''p''),
      time_ms = (\<lambda>k. int k),
      path_exists = (\<lambda>_ _. Inr False),
      read_text = (\<lambda>_ _. Inl OSError),
      render = (\<lambda>_ _. Inl TemplateError),
      path_str = (\<lambda>p. p),
      beside_script = (\<lambda>p. ''generator/'' @ p),
      path_name = (\<lambda>p. p),
      path_suffix = (\<lambda>_. []),
      monotonic = (\<lambda>k. real k),
      post = (\<lambda>_ _. None),
      randint = (\<lambda>_ lo _. lo)\<rparr>"

definition example_args :: "int \<Rightarrow> real \<Rightarrow> worker_args" where
  "example_args b d =
     \<lparr>name = ''w0'', url = ''http://localhost:8000/events'', rps = 0, duration = d,
      payload_src = None, batch = b, jitter_ms = 0\<rparr>"

definition new_world :: world where
  "new_world =
     \<lparr>lp_calls = 0, requests = [], stdout = [], sleeps = [], clock_reads = 0,
      rand_calls = 0\<rparr>"

section \<open>Properties of the ingestion service\<close>

subsection \<open>Metadata defaulting and the loop\<close>

lemma add_metadata_queue [simp]: "EVENT_QUEUE (add_metadata clk a st) = EVENT_QUEUE st"
  by (simp add: add_metadata_def Let_def)

lemma add_metadata_now_calls [simp]: "now_calls (add_metadata clk a st) = Suc (now_calls st)"
  by (simp add: add_metadata_def Let_def)

lemma add_metadata_heap:
  "heap (add_metadata clk a st) =
     (heap st)(a := setdefault (setdefault (heap st a) ''_recieved_at'' (PStr (clk (now_calls st))))
                      ''_source'' (PStr ''events-generator''))"
  by (simp add: add_metadata_def Let_def)

lemma add_metadata_queue_update:
  "add_metadata clk a (st\<lparr>EVENT_QUEUE := q\<rparr>) = (add_metadata clk a st)\<lparr>EVENT_QUEUE := q\<rparr>"
  by (simp add: add_metadata_def Let_def)

lemma add_metadata_all_Nil [simp]: "add_metadata_all clk [] st = st"
  by (simp add: add_metadata_all_def)

lemma add_metadata_all_Cons [simp]:
  "add_metadata_all clk (a # as) st = add_metadata_all clk as (add_metadata clk a st)"
  by (simp add: add_metadata_all_def)

lemma add_metadata_all_queue_update:
  "add_metadata_all clk as (st\<lparr>EVENT_QUEUE := q\<rparr>) = (add_metadata_all clk as st)\<lparr>EVENT_QUEUE := q\<rparr>"
  by (induction as arbitrary: st) (simp_all add: add_metadata_queue_update)

lemma add_metadata_all_queue [simp]: "EVENT_QUEUE (add_metadata_all clk as st) = EVENT_QUEUE st"
  by (induction as arbitrary: st) simp_all

lemma add_metadata_all_now_calls [simp]:
  "now_calls (add_metadata_all clk as st) = now_calls st + length as"
  by (induction as arbitrary: st) simp_all

lemma add_metadata_all_heap_other:
  "a \<notin> set as \<Longrightarrow> heap (add_metadata_all clk as st) a = heap st a"
  by (induction as arbitrary: st) (auto simp: add_metadata_heap)

lemma add_metadata_all_heap_nth:
  "distinct as \<Longrightarrow> i < length as \<Longrightarrow>
   heap (add_metadata_all clk as st) (as ! i) =
     setdefault (setdefault (heap st (as ! i)) ''_recieved_at'' (PStr (clk (now_calls st + i))))
       ''_source'' (PStr ''events-generator'')"
proof (induction as arbitrary: st i)
  case Nil
  then show ?case by simp
next
  case (Cons a as)
  show ?case
  proof (cases i)
    case 0
    with Cons.prems show ?thesis
      by (simp add: add_metadata_all_heap_other add_metadata_heap)
  next
    case (Suc j)
    with Cons.prems have "as ! j \<noteq> a" by auto
    with Cons Suc show ?thesis
      by (simp add: add_metadata_heap)
  qed
qed

lemma room_full: "full q \<Longrightarrow> room q n = 0"
  by (auto simp: room_def full_def split: if_splits)

lemma room_put:
  "\<not> full q \<Longrightarrow>
   room q (Suc n) = Suc (room (q\<lparr>items := items q @ [x], unfinished_tasks := u\<rparr>) n)"
  by (auto simp: room_def full_def qsize_def split: if_splits)

lemma ingest_loop_dicts:
  "ingest_loop clk (map PDict as) acc st =
     (Inr (acc + room (EVENT_QUEUE st) (length as)),
      (add_metadata_all clk (take (Suc (room (EVENT_QUEUE st) (length as))) as) st)
        \<lparr>EVENT_QUEUE := (EVENT_QUEUE st)
           \<lparr>items := items (EVENT_QUEUE st) @ map PDict (take (room (EVENT_QUEUE st) (length as)) as),
            unfinished_tasks := unfinished_tasks (EVENT_QUEUE st) + room (EVENT_QUEUE st) (length as)\<rparr>\<rparr>)"
proof (induction as arbitrary: acc st)
  case Nil
  then show ?case by (simp add: room_def)
next
  case (Cons a as)
  show ?case
  proof (cases "full (EVENT_QUEUE st)")
    case True
    then show ?thesis
      by (simp add: put_nowait_def room_full)
  next
    case False
    then show ?thesis
      by (simp add: put_nowait_def Cons.IH add_metadata_all_queue_update
            room_put [OF False, where n = "length as" and x = "PDict a"
              and u = "Suc (unfinished_tasks (EVENT_QUEUE st))"])
  qed
qed

lemma room_le: "room q n \<le> n"
  by (simp add: room_def)

lemma room_not_full:
  "j < room q n \<Longrightarrow> length xs = j \<Longrightarrow> \<not> full (q\<lparr>items := items q @ xs\<rparr>)"
  by (auto simp: room_def full_def qsize_def split: if_splits)

lemma room_stops_full:
  "room q n < n \<Longrightarrow> length xs = room q n \<Longrightarrow> maxsize q' = maxsize q \<Longrightarrow>
   items q' = items q @ xs \<Longrightarrow> full q'"
  by (auto simp: room_def full_def qsize_def split: if_splits)

lemma ingest_events_dicts:
  "ingest_events clk (Inr (PList (map PDict as))) st =
     (Inr \<lparr>accepted = room (EVENT_QUEUE st) (length as),
           queued_size = qsize (EVENT_QUEUE st) + room (EVENT_QUEUE st) (length as),
           timestamp = clk (now_calls st + min (length as) (Suc (room (EVENT_QUEUE st) (length as))))\<rparr>,
      (add_metadata_all clk (take (Suc (room (EVENT_QUEUE st) (length as))) as) st)
        \<lparr>EVENT_QUEUE := (EVENT_QUEUE st)
           \<lparr>items := items (EVENT_QUEUE st) @ map PDict (take (room (EVENT_QUEUE st) (length as)) as),
            unfinished_tasks := unfinished_tasks (EVENT_QUEUE st) + room (EVENT_QUEUE st) (length as)\<rparr>,
         now_calls := Suc (now_calls st + min (length as) (Suc (room (EVENT_QUEUE st) (length as))))\<rparr>)"
  using room_le [of "EVENT_QUEUE st" "length as"]
  by (simp add: ingest_events_def ingest_loop_dicts qsize_def min_absorb2)

subsection \<open>Batches of events\<close>

text \<open>
  Claim C3. A well-formed batch is a list of dict objects, \<open>map PDict as\<close>. The handler
  answers with a response (status 200), never with an exception. The events on the queue
  afterwards are those that were there, followed by the first \<open>accepted\<close> events of the
  batch in submission order and by none of the others. Every \<open>put_nowait\<close> before that
  point found the queue not full, and when fewer events were accepted than submitted the
  queue is full: the loop stopped at the first failure. \<open>queued_size\<close> is the size of the
  queue afterwards. Nothing is processed after the first failure: the store is what
  defaulting the first \<open>accepted + 1\<close> events of the batch, and no other, makes of it;
  every other object is as it was; the clock was read once for each of those events and
  once for the response's timestamp, and not for any later event; and the queue counts
  \<open>accepted\<close> more unfinished tasks.
\<close>

theorem ingest_events_stops_at_first_full:
  "\<exists>resp st'.
     ingest_events clk (Inr (PList (map PDict as))) st = (Inr resp, st') \<and>
     accepted resp \<le> length as \<and>
     accepted resp = room (EVENT_QUEUE st) (length as) \<and>
     items (EVENT_QUEUE st') =
       items (EVENT_QUEUE st) @ map PDict (take (accepted resp) as) \<and>
     (\<forall>j < accepted resp.
        \<not> full ((EVENT_QUEUE st)\<lparr>items := items (EVENT_QUEUE st) @ map PDict (take j as)\<rparr>)) \<and>
     (accepted resp < length as \<longrightarrow> full (EVENT_QUEUE st')) \<and>
     queued_size resp = qsize (EVENT_QUEUE st') \<and>
     heap st' = heap (add_metadata_all clk (take (Suc (accepted resp)) as) st) \<and>
     (\<forall>a. a \<notin> set (take (Suc (accepted resp)) as) \<longrightarrow> heap st' a = heap st a) \<and>
     timestamp resp = clk (now_calls st + min (length as) (Suc (accepted resp))) \<and>
     now_calls st' = Suc (now_calls st + min (length as) (Suc (accepted resp))) \<and>
     unfinished_tasks (EVENT_QUEUE st') = unfinished_tasks (EVENT_QUEUE st) + accepted resp \<and>
     maxsize (EVENT_QUEUE st') = maxsize (EVENT_QUEUE st)"
proof -
  let ?q = "EVENT_QUEUE st"
  let ?k = "room ?q (length as)"
  have le: "?k \<le> length as" by (rule room_le)
  have ot: "\<forall>a. a \<notin> set (take (Suc ?k) as) \<longrightarrow>
              heap (add_metadata_all clk (take (Suc ?k) as) st) a = heap st a"
    by (simp add: add_metadata_all_heap_other)
  have nf: "\<forall>j < ?k. \<not> full (?q\<lparr>items := items ?q @ map PDict (take j as)\<rparr>)"
  proof (intro allI impI)
    fix j assume j: "j < ?k"
    with le have "length (map PDict (take j as)) = j" by simp
    with j show "\<not> full (?q\<lparr>items := items ?q @ map PDict (take j as)\<rparr>)"
      by (rule room_not_full)
  qed
  have fl: "?k < length as \<longrightarrow>
     full (?q\<lparr>items := items ?q @ map PDict (take ?k as),
              unfinished_tasks := unfinished_tasks ?q + ?k\<rparr>)"
  proof
    assume lt: "?k < length as"
    show "full (?q\<lparr>items := items ?q @ map PDict (take ?k as),
              unfinished_tasks := unfinished_tasks ?q + ?k\<rparr>)"
      by (rule room_stops_full [OF lt, where xs = "map PDict (take ?k as)"]) (use le in simp_all)
  qed
  show ?thesis
    unfolding ingest_events_dicts using le nf fl ot by (simp add: qsize_def)
qed

theorem ingest_events_stops_at_first_full_witness:
  "\<exists>resp st'.
     ingest_events (\<lambda>k. replicate (Suc k) CHR ''t'') (Inr (PList (map PDict [0, 1, 2])))
       (initial_state\<lparr>EVENT_QUEUE := \<lparr>maxsize = 2, items = [PDict 7], unfinished_tasks = 1\<rparr>\<rparr>)
       = (Inr resp, st') \<and>
     accepted resp = 1 \<and>
     items (EVENT_QUEUE st') = [PDict 7, PDict 0] \<and>
     full (EVENT_QUEUE st') \<and>
     queued_size resp = 2 \<and>
     heap st' 2 = [] \<and>
     now_calls st' = 3"
  using ingest_events_stops_at_first_full [of "\<lambda>k. replicate (Suc k) CHR ''t''" "[0, 1, 2]"
      "initial_state\<lparr>EVENT_QUEUE := \<lparr>maxsize = 2, items = [PDict 7], unfinished_tasks = 1\<rparr>\<rparr>"]
  by (auto simp: room_def qsize_def initial_state_def)

subsection \<open>Metadata defaulting on one event\<close>

lemma setdefault_present: "map_of d k = Some x \<Longrightarrow> setdefault d k v = d"
  by (simp add: setdefault_def)

lemma setdefault_absent: "map_of d k = None \<Longrightarrow> setdefault d k v = d @ [(k, v)]"
  by (simp add: setdefault_def)

lemma map_of_setdefault:
  "map_of (setdefault d k v) k' =
     (case map_of d k' of Some x \<Rightarrow> Some x | None \<Rightarrow> if k' = k then Some v else None)"
  by (auto simp: setdefault_def map_add_def split: option.splits)

lemma setdefault_twice: "setdefault (setdefault d k v) k v' = setdefault d k v"
proof -
  have "map_of (setdefault d k v) k \<noteq> None"
    by (simp add: map_of_setdefault split: option.splits)
  then show ?thesis by (auto simp: setdefault_present)
qed

lemma setdefault_twice2:
  "setdefault (setdefault (setdefault d k v) k' v') k v'' = setdefault (setdefault d k v) k' v'"
proof -
  have "map_of (setdefault (setdefault d k v) k' v') k \<noteq> None"
    by (simp add: map_of_setdefault split: option.splits)
  then show ?thesis by (auto simp: setdefault_present)
qed

text \<open>
  Claim C4. Metadata defaulting (lines 50-52) on the dict object at address \<open>a\<close>: every
  key the caller supplied keeps its value; each of the two metadata keys keeps the
  caller's value when it is present and gets the default (the clock reading, the source
  tag) only when it is absent; no other key changes; and defaulting the event a second
  time, whatever the clock then says, leaves it as the first defaulting left it.
\<close>

theorem add_metadata_nondestructive_idempotent:
  "(\<forall>k v. map_of (heap st a) k = Some v \<longrightarrow>
          map_of (heap (add_metadata clk a st) a) k = Some v) \<and>
   map_of (heap (add_metadata clk a st) a) ''_recieved_at'' =
     Some (case map_of (heap st a) ''_recieved_at'' of
             None \<Rightarrow> PStr (clk (now_calls st)) | Some v \<Rightarrow> v) \<and>
   map_of (heap (add_metadata clk a st) a) ''_source'' =
     Some (case map_of (heap st a) ''_source'' of
             None \<Rightarrow> PStr ''events-generator'' | Some v \<Rightarrow> v) \<and>
   (\<forall>k. k \<noteq> ''_recieved_at'' \<and> k \<noteq> ''_source'' \<longrightarrow>
        map_of (heap (add_metadata clk a st) a) k = map_of (heap st a) k) \<and>
   heap (add_metadata clk' a (add_metadata clk a st)) = heap (add_metadata clk a st)"
proof (intro conjI allI impI)
  fix k v assume "map_of (heap st a) k = Some v"
  then show "map_of (heap (add_metadata clk a st) a) k = Some v"
    by (simp add: add_metadata_heap map_of_setdefault)
next
  show "map_of (heap (add_metadata clk a st) a) ''_recieved_at'' =
     Some (case map_of (heap st a) ''_recieved_at'' of
             None \<Rightarrow> PStr (clk (now_calls st)) | Some v \<Rightarrow> v)"
    by (simp add: add_metadata_heap map_of_setdefault split: option.splits)
next
  show "map_of (heap (add_metadata clk a st) a) ''_source'' =
     Some (case map_of (heap st a) ''_source'' of
             None \<Rightarrow> PStr ''events-generator'' | Some v \<Rightarrow> v)"
    by (simp add: add_metadata_heap map_of_setdefault split: option.splits)
next
  fix k assume "k \<noteq> ''_recieved_at'' \<and> k \<noteq> ''_source''"
  then show "map_of (heap (add_metadata clk a st) a) k = map_of (heap st a) k"
    by (simp add: add_metadata_heap map_of_setdefault split: option.splits)
next
  show "heap (add_metadata clk' a (add_metadata clk a st)) = heap (add_metadata clk a st)"
    by (simp add: add_metadata_heap setdefault_twice2 setdefault_twice)
qed

theorem add_metadata_nondestructive_idempotent_witness:
  "map_of (heap (add_metadata (\<lambda>k. ''t1'') 0
                   (initial_state\<lparr>heap := (\<lambda>_. [])(0 := [(''_source'', PStr ''mine'')])\<rparr>)) 0)
      ''_source'' = Some (PStr ''mine'') \<and>
   heap (add_metadata (\<lambda>k. ''t2'') 0
           (add_metadata (\<lambda>k. ''t1'') 0
              (initial_state\<lparr>heap := (\<lambda>_. [])(0 := [(''_source'', PStr ''mine'')])\<rparr>))) 0
     = [(''_source'', PStr ''mine''), (''_recieved_at'', PStr ''t1'')]"
  using add_metadata_nondestructive_idempotent [of
      "initial_state\<lparr>heap := (\<lambda>_. [])(0 := [(''_source'', PStr ''mine'')])\<rparr>" 0
      "\<lambda>k. ''t1''" "\<lambda>k. ''t2''"]
  by (simp add: add_metadata_heap setdefault_def initial_state_def)

subsection \<open>The queue stays within its capacity\<close>

lemma initial_queue_within_capacity:
  "0 < maxsize (EVENT_QUEUE initial_state) \<and>
   int (qsize (EVENT_QUEUE initial_state)) \<le> maxsize (EVENT_QUEUE initial_state)"
  by (simp add: initial_state_def qsize_def)

lemma apply_qop_bounded:
  "0 < maxsize q \<Longrightarrow> int (qsize q) \<le> maxsize q \<Longrightarrow>
   int (qsize (apply_qop q x)) \<le> maxsize q \<and> maxsize (apply_qop q x) = maxsize q"
  by (cases x)
    (auto simp: put_nowait_def full_def get_def task_done_def qsize_def split: list.splits)

lemma run_qops_bounded:
  "0 < maxsize q \<Longrightarrow> int (qsize q) \<le> maxsize q \<Longrightarrow>
   int (qsize (run_qops q ops)) \<le> maxsize q \<and> maxsize (run_qops q ops) = maxsize q"
  unfolding run_qops_def
proof (induction ops arbitrary: q)
  case Nil
  then show ?case by simp
next
  case (Cons x ops)
  from apply_qop_bounded [OF Cons.prems, of x] Cons.prems Cons.IH [of "apply_qop q x"]
  show ?case by simp
qed

text \<open>
  Claim C5. On a queue of positive capacity that starts within it, after every prefix of
  every sequence of \<open>put_nowait\<close>, \<open>get\<close> and \<open>task_done\<close> operations the size is at
  least 0 and at most the capacity, and the capacity is the same. \<open>put_nowait\<close> on the
  queue reached raises \<open>QueueFull\<close> exactly when the size equals the capacity: it fails
  at once and never goes beyond it.
\<close>

theorem queue_size_within_capacity:
  assumes "0 < maxsize q" and "int (qsize q) \<le> maxsize q"
  shows "(\<forall>k \<le> length ops.
            0 \<le> int (qsize (run_qops q (take k ops))) \<and>
            int (qsize (run_qops q (take k ops))) \<le> maxsize q \<and>
            maxsize (run_qops q (take k ops)) = maxsize q) \<and>
         (put_nowait (run_qops q ops) x = None) =
            (int (qsize (run_qops q ops)) = maxsize q)"
proof -
  have "int (qsize (run_qops q ops)) \<le> maxsize q" "maxsize (run_qops q ops) = maxsize q"
    using run_qops_bounded [OF assms, of ops] by simp_all
  then have "(put_nowait (run_qops q ops) x = None) =
            (int (qsize (run_qops q ops)) = maxsize q)"
    using assms(1) by (auto simp: put_nowait_def full_def)
  then show ?thesis
    using run_qops_bounded [OF assms] by simp
qed

theorem queue_size_within_capacity_witness:
  "map (\<lambda>k. qsize (run_qops \<lparr>maxsize = 2, items = [], unfinished_tasks = 0\<rparr>
                     (take k [Put (PDict 0), Put (PDict 1), Put (PDict 2), Get]))) [1, 2, 3, 4]
     = [1, 2, 2, 1] \<and>
   put_nowait (run_qops \<lparr>maxsize = 2, items = [], unfinished_tasks = 0\<rparr>
                 [Put (PDict 0), Put (PDict 1)]) (PDict 2) = None"
  using queue_size_within_capacity [of "\<lparr>maxsize = 2, items = [], unfinished_tasks = 0\<rparr>"
      "[Put (PDict 0), Put (PDict 1)]" "PDict 2"]
  by (simp add: run_qops_def put_nowait_def full_def qsize_def get_def)

subsection \<open>Which events a request touches\<close>

lemma ingest_events_dicts_result:
  assumes "ingest_events clk (Inr (PList (map PDict as))) st = (Inr resp, st')"
  shows "accepted resp = room (EVENT_QUEUE st) (length as)"
    and "heap st' = heap (add_metadata_all clk (take (Suc (accepted resp)) as) st)"
    and "items (EVENT_QUEUE st') =
           items (EVENT_QUEUE st) @ map PDict (take (accepted resp) as)"
  using assms unfolding ingest_events_dicts by auto

lemma add_metadata_all_take_nth:
  assumes "distinct as" and "i < length as" and "i < n"
  shows "heap (add_metadata_all clk (take n as) st) (as ! i) =
           setdefault (setdefault (heap st (as ! i)) ''_recieved_at''
                         (PStr (clk (now_calls st + i))))
             ''_source'' (PStr ''events-generator'')"
proof -
  have "distinct (take n as)" "i < length (take n as)" "take n as ! i = as ! i"
    using assms by simp_all
  from add_metadata_all_heap_nth [OF this(1) this(2), of clk st] this(3)
  show ?thesis by simp
qed

lemma add_metadata_all_take_beyond:
  assumes "distinct as" and "i < length as" and "n \<le> i"
  shows "heap (add_metadata_all clk (take n as) st) (as ! i) = heap st (as ! i)"
proof -
  have "as ! i \<notin> set (take n as)"
  proof
    assume "as ! i \<in> set (take n as)"
    then obtain j where j: "j < length (take n as)" "take n as ! j = as ! i"
      by (auto simp: in_set_conv_nth)
    then have "j < n" "j < length as" "as ! j = as ! i" by simp_all
    with assms have "j = i" by (simp add: nth_eq_iff_index_eq)
    with \<open>j < n\<close> \<open>n \<le> i\<close> show False by simp
  qed
  then show ?thesis by (rule add_metadata_all_heap_other)
qed

lemma setdefault_changes:
  "map_of d k = None \<Longrightarrow> setdefault d k v \<noteq> d"
  by (simp add: setdefault_def)

lemma length_setdefault: "length d \<le> length (setdefault d k v)"
  by (simp add: setdefault_def split: option.splits)

lemma setdefault2_changes:
  assumes "map_of d k = None \<or> map_of d k' = None"
  shows "setdefault (setdefault d k v) k' v' \<noteq> d"
proof (cases "map_of d k")
  case None
  then have "length (setdefault d k v) = Suc (length d)" by (simp add: setdefault_def)
  with length_setdefault [of "setdefault d k v" k' v'] show ?thesis by auto
next
  case (Some x)
  with assms have "map_of d k' = None" by simp
  with Some show ?thesis by (simp add: setdefault_present setdefault_changes)
qed

lemma setdefault2_changes_iff:
  "(setdefault (setdefault d k v) k' v' \<noteq> d) = (map_of d k = None \<or> map_of d k' = None)"
proof (cases "map_of d k = None \<or> map_of d k' = None")
  case True
  then show ?thesis by (simp add: setdefault2_changes)
next
  case False
  then obtain x y where "map_of d k = Some x" "map_of d k' = Some y" by auto
  then show ?thesis by (simp add: setdefault_present)
qed

text \<open>
  Claim C9, as the code has it. A well-formed batch of distinct dict objects (as parsing
  a JSON array gives) whose processing stopped at a full queue, so that fewer events were
  accepted than submitted: the first event that was not accepted, \<open>as ! accepted resp\<close>,
  has had both \<open>setdefault\<close> calls applied by the time the handler returns, with the
  clock reading of its own turn, and it is not among the events this request put on the
  queue. Its dict is no longer what it was exactly when it lacked one of the two
  metadata keys; an event that carried both is as it was.
\<close>

theorem rejected_event_has_metadata:
  assumes "distinct as"
    and "ingest_events clk (Inr (PList (map PDict as))) st = (Inr resp, st')"
    and "accepted resp < length as"
  shows "heap st' (as ! accepted resp) =
           setdefault (setdefault (heap st (as ! accepted resp)) ''_recieved_at''
                         (PStr (clk (now_calls st + accepted resp))))
             ''_source'' (PStr ''events-generator'') \<and>
         items (EVENT_QUEUE st') =
           items (EVENT_QUEUE st) @ map PDict (take (accepted resp) as) \<and>
         as ! accepted resp \<notin> set (take (accepted resp) as) \<and>
         (heap st' (as ! accepted resp) \<noteq> heap st (as ! accepted resp)) =
           (map_of (heap st (as ! accepted resp)) ''_recieved_at'' = None \<or>
            map_of (heap st (as ! accepted resp)) ''_source'' = None)"
proof -
  note r = ingest_events_dicts_result [OF assms(2)]
  have h: "heap st' (as ! accepted resp) =
           setdefault (setdefault (heap st (as ! accepted resp)) ''_recieved_at''
                         (PStr (clk (now_calls st + accepted resp))))
             ''_source'' (PStr ''events-generator'')"
    unfolding r(2) by (rule add_metadata_all_take_nth [OF assms(1) assms(3)]) simp
  have n: "as ! accepted resp \<notin> set (take (accepted resp) as)"
  proof
    assume "as ! accepted resp \<in> set (take (accepted resp) as)"
    then obtain j where j: "j < length (take (accepted resp) as)"
        "take (accepted resp) as ! j = as ! accepted resp"
      by (auto simp: in_set_conv_nth)
    then have "j < accepted resp" "j < length as" "as ! j = as ! accepted resp" by simp_all
    with assms(1,3) show False by (simp add: nth_eq_iff_index_eq)
  qed
  show ?thesis
    using h r(3) n by (simp add: setdefault2_changes_iff)
qed

theorem rejected_event_has_metadata_witness:
  "ingest_events (\<lambda>k. replicate (Suc k) CHR ''t'') (Inr (PList (map PDict [0, 1, 2])))
     (initial_state\<lparr>EVENT_QUEUE := \<lparr>maxsize = 2, items = [PDict 7], unfinished_tasks = 1\<rparr>\<rparr>)
     = (Inr \<lparr>accepted = 1, queued_size = 2, timestamp = ''ttt''\<rparr>,
        \<lparr>heap = (\<lambda>_. [])
           (0 := [(''_recieved_at'', PStr ''t''), (''_source'', PStr ''events-generator'')],
            1 := [(''_recieved_at'', PStr ''tt''), (''_source'', PStr ''events-generator'')]),
         EVENT_QUEUE = \<lparr>maxsize = 2, items = [PDict 7, PDict 0], unfinished_tasks = 2\<rparr>,
         now_calls = 3\<rparr>) \<and>
   heap (snd (ingest_events (\<lambda>k. replicate (Suc k) CHR ''t'')
                (Inr (PList (map PDict [0, 1, 2])))
                (initial_state\<lparr>EVENT_QUEUE :=
                   \<lparr>maxsize = 2, items = [PDict 7], unfinished_tasks = 1\<rparr>\<rparr>))) 1
     \<noteq> heap initial_state 1"
proof -
  let ?clk = "\<lambda>k. replicate (Suc k) CHR ''t''"
  let ?st = "initial_state\<lparr>EVENT_QUEUE := \<lparr>maxsize = 2, items = [PDict 7], unfinished_tasks = 1\<rparr>\<rparr>"
  let ?resp = "\<lparr>accepted = 1, queued_size = 2, timestamp = ''ttt''\<rparr>"
  let ?st' = "\<lparr>heap = (\<lambda>_. [])
           (0 := [(''_recieved_at'', PStr ''t''), (''_source'', PStr ''events-generator'')],
            1 := [(''_recieved_at'', PStr ''tt''), (''_source'', PStr ''events-generator'')]),
         EVENT_QUEUE = \<lparr>maxsize = 2, items = [PDict 7, PDict 0], unfinished_tasks = 2\<rparr>,
         now_calls = 3\<rparr>"
  have d: "distinct [0, 1, 2 :: nat]" by simp
  have e: "ingest_events ?clk (Inr (PList (map PDict [0, 1, 2]))) ?st = (Inr ?resp, ?st')"
    by (simp add: ingest_events_def add_metadata_def put_nowait_def full_def qsize_def
        setdefault_def initial_state_def Let_def numeral_3_eq_3)
  have l: "accepted ?resp < length [0, 1, 2 :: nat]" by simp
  from rejected_event_has_metadata [OF d e l] e show ?thesis
    by (simp add: initial_state_def setdefault_def)
qed

text \<open>
  Claim C9 as stated says the rejected event's dict is mutated. A rejected event that
  already carries both metadata keys is rejected with its dict exactly as it was.
\<close>

theorem rejected_event_with_both_keys_unchanged:
  "fst (ingest_events example_clock (Inr (PList [PDict 0, PDict 1]))
          (initial_state
             \<lparr>heap := (heap initial_state)
                        (1 := [(''_recieved_at'', PStr ''x''), (''_source'', PStr ''y'')]),
              EVENT_QUEUE := \<lparr>maxsize = 2, items = [PDict 7], unfinished_tasks = 1\<rparr>\<rparr>))
     = Inr \<lparr>accepted = 1, queued_size = 2, timestamp = ''ttt''\<rparr> \<and>
   heap (snd (ingest_events example_clock (Inr (PList [PDict 0, PDict 1]))
                (initial_state
                   \<lparr>heap := (heap initial_state)
                              (1 := [(''_recieved_at'', PStr ''x''), (''_source'', PStr ''y'')]),
                    EVENT_QUEUE := \<lparr>maxsize = 2, items = [PDict 7], unfinished_tasks = 1\<rparr>\<rparr>))) 1
     = [(''_recieved_at'', PStr ''x''), (''_source'', PStr ''y'')]"
  by (simp add: ingest_events_def add_metadata_def put_nowait_def full_def qsize_def
      setdefault_def initial_state_def example_clock_def Let_def)

text \<open>
  Claim C10. For a well-formed batch the queue gains the addresses of the first
  \<open>accepted\<close> events themselves: the objects of the request body, not copies, whose
  dicts in the store are the defaulted ones. No object other than the first
  \<open>accepted + 1\<close> events of the batch is changed; with distinct objects, event \<open>i\<close> is
  defaulted in place when \<open>i \<le> accepted\<close> and is exactly as it was when it comes after
  the first rejected event.
\<close>

theorem ingest_events_mutates_only_processed_events:
  assumes "ingest_events clk (Inr (PList (map PDict as))) st = (Inr resp, st')"
  shows "items (EVENT_QUEUE st') =
           items (EVENT_QUEUE st) @ map PDict (take (accepted resp) as) \<and>
         (\<forall>a. a \<notin> set (take (Suc (accepted resp)) as) \<longrightarrow> heap st' a = heap st a) \<and>
         (distinct as \<longrightarrow>
            (\<forall>i < length as.
               heap st' (as ! i) =
                 (if i \<le> accepted resp then
                    setdefault (setdefault (heap st (as ! i)) ''_recieved_at''
                                  (PStr (clk (now_calls st + i))))
                      ''_source'' (PStr ''events-generator'')
                  else heap st (as ! i))))"
proof -
  note r = ingest_events_dicts_result [OF assms]
  have other: "\<forall>a. a \<notin> set (take (Suc (accepted resp)) as) \<longrightarrow> heap st' a = heap st a"
    unfolding r(2) by (simp add: add_metadata_all_heap_other)
  have each: "distinct as \<longrightarrow>
            (\<forall>i < length as.
               heap st' (as ! i) =
                 (if i \<le> accepted resp then
                    setdefault (setdefault (heap st (as ! i)) ''_recieved_at''
                                  (PStr (clk (now_calls st + i))))
                      ''_source'' (PStr ''events-generator'')
                  else heap st (as ! i)))"
  proof (intro impI allI)
    fix i assume d: "distinct as" and i: "i < length as"
    show "heap st' (as ! i) =
                 (if i \<le> accepted resp then
                    setdefault (setdefault (heap st (as ! i)) ''_recieved_at''
                                  (PStr (clk (now_calls st + i))))
                      ''_source'' (PStr ''events-generator'')
                  else heap st (as ! i))"
    proof (cases "i \<le> accepted resp")
      case True
      then have "i < Suc (accepted resp)" by simp
      from add_metadata_all_take_nth [OF d i this, of clk st] True show ?thesis
        by (simp add: r(2))
    next
      case False
      then have "Suc (accepted resp) \<le> i" by simp
      from add_metadata_all_take_beyond [OF d i this, of clk st] False show ?thesis
        by (simp add: r(2))
    qed
  qed
  from r(3) other each show ?thesis by simp
qed

theorem ingest_events_mutates_only_processed_events_witness:
  "ingest_events (\<lambda>k. replicate (Suc k) CHR ''t'') (Inr (PList (map PDict [0, 1, 2])))
     (initial_state\<lparr>heap := (\<lambda>_. [])(2 := [(''n'', PInt 5)]),
                    EVENT_QUEUE := \<lparr>maxsize = 2, items = [PDict 7], unfinished_tasks = 1\<rparr>\<rparr>)
     = (Inr \<lparr>accepted = 1, queued_size = 2, timestamp = ''ttt''\<rparr>,
        \<lparr>heap = (\<lambda>_. [])
           (2 := [(''n'', PInt 5)],
            0 := [(''_recieved_at'', PStr ''t''), (''_source'', PStr ''events-generator'')],
            1 := [(''_recieved_at'', PStr ''tt''), (''_source'', PStr ''events-generator'')]),
         EVENT_QUEUE = \<lparr>maxsize = 2, items = [PDict 7, PDict 0], unfinished_tasks = 2\<rparr>,
         now_calls = 3\<rparr>) \<and>
   heap (snd (ingest_events (\<lambda>k. replicate (Suc k) CHR ''t'')
                (Inr (PList (map PDict [0, 1, 2])))
                (initial_state\<lparr>heap := (\<lambda>_. [])(2 := [(''n'', PInt 5)]),
                   EVENT_QUEUE :=
                     \<lparr>maxsize = 2, items = [PDict 7], unfinished_tasks = 1\<rparr>\<rparr>))) 2
     = [(''n'', PInt 5)]"
proof -
  let ?clk = "\<lambda>k. replicate (Suc k) CHR ''t''"
  let ?st = "initial_state\<lparr>heap := (\<lambda>_. [])(2 := [(''n'', PInt 5)]),
                    EVENT_QUEUE := \<lparr>maxsize = 2, items = [PDict 7], unfinished_tasks = 1\<rparr>\<rparr>"
  let ?resp = "\<lparr>accepted = 1, queued_size = 2, timestamp = ''ttt''\<rparr>"
  let ?st' = "\<lparr>heap = (\<lambda>_. [])
           (2 := [(''n'', PInt 5)],
            0 := [(''_recieved_at'', PStr ''t''), (''_source'', PStr ''events-generator'')],
            1 := [(''_recieved_at'', PStr ''tt''), (''_source'', PStr ''events-generator'')]),
         EVENT_QUEUE = \<lparr>maxsize = 2, items = [PDict 7, PDict 0], unfinished_tasks = 2\<rparr>,
         now_calls = 3\<rparr>"
  have e: "ingest_events ?clk (Inr (PList (map PDict [0, 1, 2]))) ?st = (Inr ?resp, ?st')"
    by (simp add: ingest_events_def add_metadata_def put_nowait_def full_def qsize_def
        setdefault_def initial_state_def Let_def numeral_3_eq_3)
  from ingest_events_mutates_only_processed_events [OF e] e show ?thesis
    by (simp add: initial_state_def)
qed

subsection \<open>Bodies of the wrong shape\<close>

lemma ingest_events_single_object:
  "ingest_events clk (Inr (PDict a)) st = ingest_events clk (Inr (PList [PDict a])) st"
  by (simp add: ingest_events_def)

lemma ingest_events_invalid_json:
  "ingest_events clk (Inl e) st = (Inl (HTTPException 400 (''Invalid JSON: '' @ e)), st)"
  by (simp add: ingest_events_def)

lemma ingest_events_wrong_top_level:
  "\<not> is_dict body \<Longrightarrow> (\<forall>xs. body \<noteq> PList xs) \<Longrightarrow>
   ingest_events clk (Inr body) st =
     (Inl (HTTPException 400 ''Body must be a JSON object or array pf objects''), st)"
  by (cases body) (simp_all add: ingest_events_def)

text \<open>
  Claim C1. A body that does not parse, or that parses to something that is neither a
  dict nor a list, is answered with \<open>HTTPException 400\<close> and the state is untouched
  (the two lemmas above). A list is accepted whatever it holds, so for the array \<open>[1]\<close>
  the handler raises \<open>AttributeError\<close> instead, and for an array holding an object and
  then a number the object is already on the queue when it does.
\<close>

theorem ingest_events_array_with_number:
  "ingest_events clk (Inr (PList [PInt 1])) st =
     (Inl (AttributeError ''int'' ''setdefault''), st) \<and>
   fst (ingest_events clk (Inr (PList [PDict 0, PInt 1])) initial_state) =
     Inl (AttributeError ''int'' ''setdefault'') \<and>
   items (EVENT_QUEUE (snd (ingest_events clk (Inr (PList [PDict 0, PInt 1])) initial_state))) =
     [PDict 0]"
  by (simp add: ingest_events_def add_metadata_def put_nowait_def full_def qsize_def
      initial_state_def Let_def)

section \<open>Properties of the load generator\<close>

subsection \<open>The payloads of one iteration\<close>

lemma load_list_ok:
  "\<forall>i < n. load_payload e src (lp_calls w + i) = Inr (p (lp_calls w + i)) \<Longrightarrow>
   load_list e src n w =
     (Inr (map p [lp_calls w..<lp_calls w + n]), w\<lparr>lp_calls := lp_calls w + n\<rparr>)"
proof (induction n arbitrary: w)
  case 0
  then show ?case by simp
next
  case (Suc n)
  from Suc.prems [rule_format, of 0]
  have h0: "load_payload e src (lp_calls w) = Inr (p (lp_calls w))" by simp
  let ?w1 = "w\<lparr>lp_calls := Suc (lp_calls w)\<rparr>"
  have "\<forall>i < n. load_payload e src (lp_calls ?w1 + i) = Inr (p (lp_calls ?w1 + i))"
  proof (intro allI impI)
    fix i assume "i < n"
    with Suc.prems [rule_format, of "Suc i"]
    show "load_payload e src (lp_calls ?w1 + i) = Inr (p (lp_calls ?w1 + i))" by simp
  qed
  from Suc.IH [OF this]
  have ih: "load_list e src n ?w1 =
     (Inr (map p [Suc (lp_calls w)..<Suc (lp_calls w + n)]),
      w\<lparr>lp_calls := Suc (lp_calls w + n)\<rparr>)"
    by (simp del: upt_Suc)
  have u: "[lp_calls w..<Suc (lp_calls w + n)] =
             lp_calls w # [Suc (lp_calls w)..<Suc (lp_calls w + n)]"
    by (rule upt_conv_Cons) simp
  show ?case
    by (simp add: call_load_payload_def h0 ih u del: upt_Suc)
qed

lemma load_list_frame:
  "load_list e src n w = (r, w') \<Longrightarrow>
   requests w' = requests w \<and> stdout w' = stdout w \<and> sleeps w' = sleeps w \<and>
   clock_reads w' = clock_reads w \<and> rand_calls w' = rand_calls w"
proof (induction n arbitrary: w r w')
  case 0
  then show ?case by auto
next
  case (Suc n)
  obtain r1 w1 where l: "load_list e src n (w\<lparr>lp_calls := Suc (lp_calls w)\<rparr>) = (r1, w1)"
    by (cases "load_list e src n (w\<lparr>lp_calls := Suc (lp_calls w)\<rparr>)")
  from Suc.IH [OF l] Suc.prems l show ?case
    by (auto simp: call_load_payload_def split: sum.splits)
qed

lemma build_data_frame:
  assumes "build_data e a w = (r, w')"
  shows "requests w' = requests w \<and> stdout w' = stdout w \<and> sleeps w' = sleeps w \<and>
   clock_reads w' = clock_reads w \<and> rand_calls w' = rand_calls w"
proof -
  obtain r1 w1 where l:
    "load_list e (payload_src a) (nat (batch a)) (w\<lparr>lp_calls := Suc (lp_calls w)\<rparr>) = (r1, w1)"
    by (cases "load_list e (payload_src a) (nat (batch a)) (w\<lparr>lp_calls := Suc (lp_calls w)\<rparr>)")
  from load_list_frame [OF l] assms l show ?thesis
    by (auto simp: build_data_def call_load_payload_def split: sum.splits if_splits)
qed

lemma build_data_ok:
  assumes "1 \<le> batch a"
    and "\<forall>i. i \<le> (if batch a = 1 then 0 else nat (batch a)) \<longrightarrow>
           load_payload e (payload_src a) (lp_calls w + i) = Inr (p (lp_calls w + i))"
  shows "build_data e a w =
           (Inr (if batch a = 1 then p (lp_calls w)
                 else JArr (map p [Suc (lp_calls w)..<Suc (lp_calls w) + nat (batch a)])),
            w\<lparr>lp_calls := lp_calls w + (if batch a = 1 then 1 else nat (batch a) + 1)\<rparr>)"
proof -
  from assms(2) [rule_format, of 0]
  have h0: "load_payload e (payload_src a) (lp_calls w) = Inr (p (lp_calls w))" by simp
  show ?thesis
  proof (cases "batch a = 1")
    case True
    with h0 show ?thesis by (simp add: build_data_def call_load_payload_def)
  next
    case False
    with assms(1) have b: "1 < batch a" by simp
    let ?w1 = "w\<lparr>lp_calls := Suc (lp_calls w)\<rparr>"
    have "\<forall>i < nat (batch a).
            load_payload e (payload_src a) (lp_calls ?w1 + i) = Inr (p (lp_calls ?w1 + i))"
    proof (intro allI impI)
      fix i assume "i < nat (batch a)"
      with assms(2) [rule_format, of "Suc i"] False
      show "load_payload e (payload_src a) (lp_calls ?w1 + i) = Inr (p (lp_calls ?w1 + i))"
        by simp
    qed
    from load_list_ok [OF this] h0 b False show ?thesis
      by (simp add: build_data_def call_load_payload_def)
  qed
qed

lemma pace_requests [simp]: "requests (pace e a interval w) = requests w"
  by (simp add: pace_def Let_def)

lemma pace_lp_calls [simp]: "lp_calls (pace e a interval w) = lp_calls w"
  by (simp add: pace_def Let_def)

lemma pace_stdout [simp]: "stdout (pace e a interval w) = stdout w"
  by (simp add: pace_def Let_def)

lemma send_requests [simp]: "requests (send e a data w) = requests w @ [data]"
  by (simp add: send_def split: option.splits)

lemma send_lp_calls [simp]: "lp_calls (send e a data w) = lp_calls w"
  by (simp add: send_def split: option.splits)

lemma iteration_ok:
  "build_data e a w = (Inr data, w1) \<Longrightarrow>
   iteration e a interval sent w = (Inr (sent + batch a), pace e a interval (send e a data w1))"
  by (simp add: iteration_def Let_def)

lemma example_env_post: "post example_env k d = None"
  by (simp add: example_env_def)

text \<open>
  Claim C2, as the code has it. For a batch size \<open>B \<ge> 1\<close> and a payload source that
  answers the calls of the iteration (\<open>p k\<close> is the payload of the \<open>k\<close>-th call), the
  iteration hands one request body to the transport: for \<open>B = 1\<close> the single payload
  of its one \<open>load_payload\<close> call, for \<open>B > 1\<close> an array of \<open>B\<close> payloads, each from a
  call of its own. For \<open>B > 1\<close> these \<open>B\<close> calls come after the call of line 78, whose
  payload is dropped, so the iteration makes \<open>B + 1\<close> calls.
\<close>

theorem iteration_payload_calls:
  assumes "1 \<le> batch a"
    and "\<forall>i. i \<le> (if batch a = 1 then 0 else nat (batch a)) \<longrightarrow>
           load_payload e (payload_src a) (lp_calls w + i) = Inr (p (lp_calls w + i))"
  shows "\<exists>w'. iteration e a interval sent w = (Inr (sent + batch a), w') \<and>
           requests w' = requests w @
             [if batch a = 1 then p (lp_calls w)
              else JArr (map p [Suc (lp_calls w)..<Suc (lp_calls w) + nat (batch a)])] \<and>
           length (map p [Suc (lp_calls w)..<Suc (lp_calls w) + nat (batch a)]) = nat (batch a) \<and>
           lp_calls w' = lp_calls w + (if batch a = 1 then 1 else nat (batch a) + 1)"
proof -
  let ?data = "if batch a = 1 then p (lp_calls w)
               else JArr (map p [Suc (lp_calls w)..<Suc (lp_calls w) + nat (batch a)])"
  let ?w1 = "w\<lparr>lp_calls := lp_calls w + (if batch a = 1 then 1 else nat (batch a) + 1)\<rparr>"
  have b: "build_data e a w = (Inr ?data, ?w1)"
    by (rule build_data_ok [OF assms])
  have "iteration e a interval sent w =
          (Inr (sent + batch a), pace e a interval (send e a ?data ?w1))"
    by (rule iteration_ok [OF b])
  then show ?thesis by (simp del: upt_Suc)
qed

theorem iteration_payload_calls_witness:
  "iteration example_env (example_args 3 0) 0 0 new_world =
     (Inr 3,
      new_world\<lparr>lp_calls := 4,
                requests := [JArr [default_payload example_env 1, default_payload example_env 2,
                                   default_payload example_env 3]],
                sleeps := [0]\<rparr>) \<and>
   (\<exists>w'. iteration example_env (example_args 1 0) 0 0 new_world = (Inr 1, w') \<and>
         requests w' = [default_payload example_env 0] \<and> lp_calls w' = 1)"
proof -
  have b3: "1 \<le> batch (example_args 3 0)" and b1: "1 \<le> batch (example_args 1 0)"
    by (simp_all add: example_args_def)
  have l3: "\<forall>i. i \<le> (if batch (example_args 3 0) = 1 then 0 else nat (batch (example_args 3 0))) \<longrightarrow>
      load_payload example_env (payload_src (example_args 3 0)) (lp_calls new_world + i) =
        Inr (default_payload example_env (lp_calls new_world + i))"
    by (simp add: load_payload_def example_args_def)
  have l1: "\<forall>i. i \<le> (if batch (example_args 1 0) = 1 then 0 else nat (batch (example_args 1 0))) \<longrightarrow>
      load_payload example_env (payload_src (example_args 1 0)) (lp_calls new_world + i) =
        Inr (default_payload example_env (lp_calls new_world + i))"
    by (simp add: load_payload_def example_args_def)
  have "iteration example_env (example_args 3 0) 0 0 new_world =
     (Inr 3,
      new_world\<lparr>lp_calls := 4,
                requests := [JArr [default_payload example_env 1, default_payload example_env 2,
                                   default_payload example_env 3]],
                sleeps := [0]\<rparr>)"
    by (simp add: iteration_def build_data_def call_load_payload_def load_payload_def send_def
        pace_def example_args_def example_env_post new_world_def eval_nat_numeral Let_def)
  with iteration_payload_calls [OF b1 l1, of 0 0] iteration_payload_calls [OF b3 l3, of 0 0]
  show ?thesis
    by (simp add: example_args_def new_world_def)
qed

text \<open>
  Claim C2 as stated asks for exactly \<open>B\<close> calls. With \<open>B = 2\<close> and the default
  payload, the iteration makes 3 calls and sends the payloads of the second and third.
\<close>

theorem iteration_batch_extra_call:
  "batch (example_args 2 0) = 2 \<and>
   lp_calls new_world = 0 \<and>
   lp_calls (snd (iteration example_env (example_args 2 0) 0 0 new_world)) = 3 \<and>
   requests (snd (iteration example_env (example_args 2 0) 0 0 new_world)) =
     [JArr [default_payload example_env 1, default_payload example_env 2]]"
  by (simp add: iteration_def build_data_def call_load_payload_def load_payload_def send_def
      pace_def example_args_def example_env_post new_world_def eval_nat_numeral Let_def)

subsection \<open>A failed send\<close>

lemma send_stdout_failure:
  "post e (length (requests w)) data = Some x \<Longrightarrow>
   stdout (send e a data w) = stdout w @ [''['' @ name a @ ''] error: '' @ x]"
  by (simp add: send_def)

lemma default_payload_post_update [simp]:
  "default_payload (e\<lparr>post := f\<rparr>) k = default_payload e k"
  by (simp add: default_payload_def)

lemma load_file_post_update [simp]:
  "load_file (e\<lparr>post := f\<rparr>) src k = load_file e src k"
  by (simp add: load_file_def Let_def cong: sum.case_cong option.case_cong if_cong)

lemma load_payload_post_update [simp]:
  "load_payload (e\<lparr>post := f\<rparr>) src k = load_payload e src k"
  by (simp add: load_payload_def cong: option.case_cong if_cong sum.case_cong)

lemma load_list_post_update [simp]:
  "load_list (e\<lparr>post := f\<rparr>) src n w = load_list e src n w"
  by (induction n arbitrary: w) (simp_all add: call_load_payload_def cong: sum.case_cong)

lemma build_data_post_update [simp]:
  "build_data (e\<lparr>post := f\<rparr>) a w = build_data e a w"
  by (simp add: build_data_def call_load_payload_def cong: sum.case_cong if_cong)

text \<open>
  Claim C7. A pass of the loop whose condition holds, whose payloads were obtained
  (the request body is \<open>data\<close>) and whose send fails with an exception of text \<open>x\<close>:
  the iteration ends normally; the request was handed to the transport once and not
  again; the line \<open>[name] error: x\<close> is printed; the sent-count grows by the batch size,
  the same count the iteration gives in a world that differs only in that every send
  succeeds; and the loop goes on to its next test of the condition with that count.
\<close>

theorem transport_failure_is_swallowed:
  assumes "before (monotonic e (clock_reads w)) end_t"
    and "build_data e a (w\<lparr>clock_reads := Suc (clock_reads w)\<rparr>) = (Inr data, w1)"
    and "post e (length (requests w1)) data = Some x"
  shows "\<exists>w'. iteration e a interval sent (w\<lparr>clock_reads := Suc (clock_reads w)\<rparr>) =
                (Inr (sent + batch a), w') \<and>
              requests w' = requests w @ [data] \<and>
              stdout w' = stdout w @ [''['' @ name a @ ''] error: '' @ x] \<and>
              worker_loop e a interval end_t (Suc fuel) sent w =
                worker_loop e a interval end_t fuel (sent + batch a) w' \<and>
              fst (iteration (e\<lparr>post := (\<lambda>_ _. None)\<rparr>) a interval sent
                     (w\<lparr>clock_reads := Suc (clock_reads w)\<rparr>)) = Inr (sent + batch a)"
proof -
  let ?w0 = "w\<lparr>clock_reads := Suc (clock_reads w)\<rparr>"
  let ?w' = "pace e a interval (send e a data w1)"
  note f = build_data_frame [OF assms(2)]
  have it: "iteration e a interval sent ?w0 = (Inr (sent + batch a), ?w')"
    by (rule iteration_ok [OF assms(2)])
  have rq: "requests ?w' = requests w @ [data]"
    using f by simp
  have so: "stdout ?w' = stdout w @ [''['' @ name a @ ''] error: '' @ x]"
    using f send_stdout_failure [OF assms(3), of a] by simp
  have lp: "worker_loop e a interval end_t (Suc fuel) sent w =
              worker_loop e a interval end_t fuel (sent + batch a) ?w'"
    using assms(1) it by (simp add: Let_def)
  have ok: "fst (iteration (e\<lparr>post := (\<lambda>_ _. None)\<rparr>) a interval sent ?w0) =
              Inr (sent + batch a)"
    using assms(2) by (simp add: iteration_def Let_def)
  from it rq so lp ok show ?thesis by blast
qed

theorem transport_failure_is_swallowed_witness:
  "\<exists>w'. worker_loop (example_env\<lparr>post := (\<lambda>_ _. Some ''timeout'')\<rparr>) (example_args 1 0)
            0 Infinity (Suc 0) 0 new_world = (Running 1, w') \<and>
         requests w' = [default_payload example_env 0] \<and>
         stdout w' = [''[w0] error: timeout'']"
proof -
  let ?e = "example_env\<lparr>post := (\<lambda>_ _. Some ''timeout'')\<rparr>"
  let ?a = "example_args 1 0"
  let ?w1 = "new_world\<lparr>clock_reads := Suc (clock_reads new_world), lp_calls := 1\<rparr>"
  have c: "before (monotonic ?e (clock_reads new_world)) Infinity" by simp
  have b: "build_data ?e ?a (new_world\<lparr>clock_reads := Suc (clock_reads new_world)\<rparr>) =
             (Inr (default_payload example_env 0), ?w1)"
    by (simp add: build_data_def call_load_payload_def load_payload_def example_args_def
        new_world_def)
  have p: "post ?e (length (requests ?w1)) (default_payload example_env 0) = Some ''timeout''"
    by simp
  from transport_failure_is_swallowed [OF c b p, of 0 0 0] show ?thesis
    by (auto simp: example_args_def new_world_def)
qed

subsection \<open>A run without a deadline\<close>








subsection \<open>The rate of each worker\<close>

text \<open>
  Claim C6. \<open>run\<close> creates one worker per index below the concurrency, and every one of
  them gets the same rate: the aggregate rate divided by the concurrency, with a
  concurrency of 0 or less taken as 1 and a negative quotient raised to 0. For a
  positive rate and a positive concurrency this is \<open>R / C\<close>. Rates are real numbers
  here; the rounding of Python's \<open>float\<close> division is not modelled.
\<close>

theorem run_splits_rate_evenly:
  "(\<forall>t \<in> set (run_tasks u r d c src b j). rps t = max (r / real_of_int (max c 1)) 0) \<and>
   length (run_tasks u r d c src b j) = nat c \<and>
   per_worker_rps r c = (if c \<le> 0 then max r 0 else max (r / real_of_int c) 0) \<and>
   (0 < r \<and> 0 < c \<longrightarrow> (\<forall>t \<in> set (run_tasks u r d c src b j). rps t = r / real_of_int c))"
proof -
  have a: "\<forall>t \<in> set (run_tasks u r d c src b j). rps t = per_worker_rps r c"
    by (auto simp: run_tasks_def)
  have p: "per_worker_rps r c = r / real_of_int c" if "0 < r" and "0 < c"
  proof -
    from that have "0 < r / real_of_int c" by simp
    moreover from that have "max c 1 = c" by simp
    ultimately show ?thesis by (simp add: per_worker_rps_def)
  qed
  have q: "per_worker_rps r c = (if c \<le> 0 then max r 0 else max (r / real_of_int c) 0)"
  proof (cases "c \<le> 0")
    case True
    then have "max c 1 = 1" by simp
    with True show ?thesis by (simp add: per_worker_rps_def)
  next
    case False
    then have "max c 1 = c" by simp
    with False show ?thesis by (simp add: per_worker_rps_def)
  qed
  have l: "length (run_tasks u r d c src b j) = nat c"
    by (simp add: run_tasks_def)
  from a have a': "\<forall>t \<in> set (run_tasks u r d c src b j).
                     rps t = max (r / real_of_int (max c 1)) 0"
    by (simp add: per_worker_rps_def)
  from a p have "0 < r \<and> 0 < c \<longrightarrow>
      (\<forall>t \<in> set (run_tasks u r d c src b j). rps t = r / real_of_int c)"
    by simp
  with a' l q show ?thesis by blast
qed

theorem run_splits_rate_evenly_witness:
  "list_all (\<lambda>t. rps t = 25 / 2) (run_tasks ''http://localhost:8000/events'' 50 10 4 None 1 50) \<and>
   length (run_tasks ''http://localhost:8000/events'' 50 10 4 None 1 50) = 4"
  using run_splits_rate_evenly [of "''http://localhost:8000/events''" 50 10 4 None 1 50]
  by (simp add: list_all_iff)

end
